theory Spec2Isabelle
  imports Main "HOL-Library.AList" "HOL-Library.Char_ord" "HOL-Library.List_Lexorder"
begin

section \<open>Strings\<close>

text \<open>
  File names and stems are Python \<open>str\<close> values. They are modelled as \<open>string\<close>
  (lists of 8-bit characters), and \<open>str.lower()\<close> as the ASCII case mapping: the
  letters \<open>A\<close> to \<open>Z\<close> go to \<open>a\<close> to \<open>z\<close>, every other character stays. All
  stems and extensions of the alias table are ASCII.
\<close>

definition lower_char :: "char \<Rightarrow> char" where
  "lower_char c =
     (case map_of (zip ''ABCDEFGHIJKLMNOPQRSTUVWXYZ'' ''abcdefghijklmnopqrstuvwxyz'') c of
        None \<Rightarrow> c
      | Some d \<Rightarrow> d)"

definition lower :: "string \<Rightarrow> string" where
  "lower s = map lower_char s"

text \<open>\<open>s.startswith(p)\<close>, \<open>s.endswith(p)\<close> and \<open>sub in s\<close>.\<close>

definition startswith :: "string \<Rightarrow> string \<Rightarrow> bool" where
  "startswith s p = (take (length p) s = p)"

definition endswith :: "string \<Rightarrow> string \<Rightarrow> bool" where
  "endswith s p = (length p \<le> length s \<and> drop (length s - length p) s = p)"

fun contains :: "string \<Rightarrow> string \<Rightarrow> bool" where
  "contains [] sub = (sub = [])"
| "contains (c # cs) sub = (startswith (c # cs) sub \<or> contains cs sub)"

text \<open>\<open>str(n)\<close> for a non-negative integer: its decimal digits.\<close>

definition digit_char :: "nat \<Rightarrow> char" where
  "digit_char d = ''0123456789'' ! d"

function str_nat :: "nat \<Rightarrow> string" where
  "str_nat n = (if n < 10 then [digit_char n] else str_nat (n div 10) @ [digit_char (n mod 10)])"
  by pat_completeness auto
termination
  by (relation "measure (\<lambda>n. n)") auto

section \<open>The alias table\<close>

datatype metric_key = PR | P | R | F1 | CM | CM_N

definition BASE_METRIC_STEMS :: "(metric_key \<times> string list) list" where
  "BASE_METRIC_STEMS =
    [(PR, [''pr_curve'', ''pr-curve'', ''prcurve'', ''precision_recall_curve'',
           ''precision-recall'', ''pr'']),
     (P, [''p_curve'', ''p-curve'', ''pcurve'', ''precision_curve'', ''precision'',
          ''boxpcurve'']),
     (R, [''r_curve'', ''r-curve'', ''rcurve'', ''recall_curve'', ''recall'']),
     (F1, [''f1_curve'', ''f1-curve'', ''f1curve'', ''f1'']),
     (CM, [''confusion_matrix'', ''confusion-matrix'', ''cm'']),
     (CM_N, [''confusion_matrix_normalized'', ''confusion-matrix-normalized'',
             ''normalized_confusion_matrix'', ''confusion_matrix_norm'',
             ''confusion-matrix-norm'', ''confusionmatrix_normalized'',
             ''confusionmatrix-normalized'', ''confusion_matrix_normalised'',
             ''confusion-matrix-normalised'', ''cm_normalized'', ''cm_norm'',
             ''cm-normalized'', ''cm-norm''])]"

text \<open>The tuple \<open>(s, f"box{s}", f"box_{s}", f"box-{s}")\<close> of \<open>expand_with_box\<close>.\<close>

definition box_variants :: "string \<Rightarrow> string list" where
  "box_variants s = [s, ''box'' @ s, ''box_'' @ s, ''box-'' @ s]"

text \<open>
  \<open>expand_with_box\<close>: the state of the two nested loops is the pair
  \<open>(seen, variants)\<close>. \<open>expand_inner\<close> is the loop over the variants of one stem,
  \<open>expand_outer\<close> the loop over the stems.
\<close>

fun expand_inner :: "string set \<times> string list \<Rightarrow> string list \<Rightarrow> string set \<times> string list" where
  "expand_inner st [] = st"
| "expand_inner (seen, variants) (v # vs) =
     (let low = lower v in
      if low \<notin> seen then expand_inner (insert low seen, variants @ [v]) vs
      else expand_inner (seen, variants) vs)"

fun expand_outer :: "string set \<times> string list \<Rightarrow> string list \<Rightarrow> string set \<times> string list" where
  "expand_outer st [] = st"
| "expand_outer st (s # stems) = expand_outer (expand_inner st (box_variants s)) stems"

definition expand_with_box :: "string list \<Rightarrow> string list" where
  "expand_with_box stems = snd (expand_outer ({}, []) stems)"

definition METRIC_ALIASES :: "(metric_key \<times> string list) list" where
  "METRIC_ALIASES = map (\<lambda>(k, v). (k, expand_with_box v)) BASE_METRIC_STEMS"

definition ALLOWED_EXTS :: "string list" where
  "ALLOWED_EXTS = [''.png'', ''.jpg'', ''.jpeg'', ''.webp'', ''.svg'']"

text \<open>
  The deduplication the specification describes, written from its words: keep the first
  occurrence of every entry and drop each later entry that equals it up to case.
\<close>

fun dedup_ci :: "string list \<Rightarrow> string list" where
  "dedup_ci [] = []"
| "dedup_ci (x # xs) = x # dedup_ci (filter (\<lambda>y. lower y \<noteq> lower x) xs)"


text \<open>
  Python raises where a subscript has no element. \<open>METRIC_ALIASES["CM"][0]\<close> is such a
  subscript twice over.
\<close>

datatype error = IndexError | KeyError | OSError

definition alias_first :: "metric_key \<Rightarrow> error + string" where
  "alias_first k =
     (case map_of METRIC_ALIASES k of
        None \<Rightarrow> Inl KeyError
      | Some [] \<Rightarrow> Inl IndexError
      | Some (s # _) \<Rightarrow> Inr s)"

text \<open>
  The \<open>canonical\<close> component of \<open>alias_payload\<close> in \<open>generate_html_multi\<close>:
  \<open>BASE_METRIC_STEMS[k][0] + ALLOWED_EXTS[0]\<close> for every key of \<open>BASE_METRIC_STEMS\<close>.
\<close>

fun alias_payload_canonical :: "(metric_key \<times> string list) list \<Rightarrow> error + (metric_key \<times> string) list" where
  "alias_payload_canonical [] = Inr []"
| "alias_payload_canonical ((k, []) # rest) = Inl IndexError"
| "alias_payload_canonical ((k, s # _) # rest) =
     (case alias_payload_canonical rest of
        Inl e \<Rightarrow> Inl e
      | Inr m \<Rightarrow> Inr ((k, s @ ALLOWED_EXTS ! 0) # m))"

section \<open>The file system\<close>

text \<open>
  A directory entry is a regular file, a directory or something else (a socket, a
  dangling link). A file carries its bytes, or \<open>None\<close> when reading it fails; a
  directory carries its entries in the order \<open>iterdir\<close> yields them, or \<open>None\<close>
  when listing it fails.
\<close>

datatype entry =
    File string "string option"
  | Dir string "entry list option"
  | Other string

fun ename :: "entry \<Rightarrow> string" where
  "ename (File n _) = n"
| "ename (Dir n _) = n"
| "ename (Other n) = n"

fun is_file :: "entry \<Rightarrow> bool" where
  "is_file (File _ _) = True"
| "is_file _ = False"

fun is_dir :: "entry \<Rightarrow> bool" where
  "is_dir (Dir _ _) = True"
| "is_dir _ = False"

text \<open>
  \<open>Path.suffix\<close>: the part of the name from its last dot, unless that dot is the first
  or the last character.
\<close>

definition path_suffix :: "string \<Rightarrow> string" where
  "path_suffix name =
     (if CHR ''.'' \<notin> set name then []
      else
        let i = length name - length (takeWhile (\<lambda>c. c \<noteq> CHR ''.'') (rev name)) - 1
        in if 0 < i \<and> i < length name - 1 then drop i name else [])"

definition guess_mime_type :: "string \<Rightarrow> string" where
  "guess_mime_type path =
     (let suf = lower (path_suffix path) in
      if suf = ''.png'' then ''image/png''
      else if suf = ''.jpg'' \<or> suf = ''.jpeg'' then ''image/jpeg''
      else if suf = ''.webp'' then ''image/webp''
      else if suf = ''.svg'' then ''image/svg+xml''
      else ''application/octet-stream'')"

text \<open>
  The data URL \<open>f"data:{mime};base64,{b64}"\<close> is kept as its two parts: the MIME type
  and the bytes that the base64 text encodes. As a Python string it is never empty, so
  it is always true in a condition.
\<close>

datatype data_url = DataUrl string string

text \<open>
  \<open>encode_image_to_data_url\<close>: the \<open>try\<close> block turns every failure of opening or
  reading into \<open>None\<close>.
\<close>

fun encode_image_to_data_url :: "entry \<Rightarrow> data_url option" where
  "encode_image_to_data_url (File n (Some bytes)) = Some (DataUrl (guess_mime_type n) bytes)"
| "encode_image_to_data_url _ = None"

section \<open>Resolving one configuration directory\<close>

text \<open>
  A value of the \<open>images\<close> dictionary: a data URL or \<open>None\<close>, a list of data URLs, or
  a dictionary from batch label to a list of data URLs. Dictionaries are association
  lists in insertion order; \<open>AList.update\<close> assigns to a key as Python does (in place
  when the key exists, at the end otherwise).
\<close>

datatype image_entry =
    Single "data_url option"
  | Gallery "data_url list"
  | Categorized "(string \<times> data_url list) list"

type_synonym images_dict = "(string \<times> image_entry) list"

type_synonym present_dict = "(string \<times> entry) list"

text \<open>\<open>present = {f.name.lower(): f for f in cfg_dir.iterdir() if f.is_file()}\<close>\<close>

fun present_loop :: "present_dict \<Rightarrow> entry list \<Rightarrow> present_dict" where
  "present_loop present [] = present"
| "present_loop present (f # fs) =
     (if is_file f then present_loop (AList.update (lower (ename f)) f present) fs
      else present_loop present fs)"

definition present_of :: "entry list \<Rightarrow> present_dict" where
  "present_of listing = present_loop [] listing"

text \<open>
  The search of one metric. Its state is the pair \<open>(data_url, found_ext)\<close>.
  \<open>scan_exts\<close> is the loop over \<open>ALLOWED_EXTS\<close>, which stops at the first candidate
  that is in \<open>present\<close>; \<open>scan_stems\<close> is the loop over the stems, which stops once
  \<open>data_url\<close> is set.
\<close>

type_synonym scan_state = "data_url option \<times> string option"

fun scan_exts :: "present_dict \<Rightarrow> string \<Rightarrow> scan_state \<Rightarrow> string list \<Rightarrow> scan_state" where
  "scan_exts present stem st [] = st"
| "scan_exts present stem st (ext # exts) =
     (case map_of present (lower (stem @ ext)) of
        Some f \<Rightarrow> (encode_image_to_data_url f, Some ext)
      | None \<Rightarrow> scan_exts present stem st exts)"

fun scan_stems :: "present_dict \<Rightarrow> scan_state \<Rightarrow> string list \<Rightarrow> scan_state" where
  "scan_stems present st [] = st"
| "scan_stems present st (stem # stems) =
     (let st' = scan_exts present stem st ALLOWED_EXTS in
      if fst st' \<noteq> None then st' else scan_stems present st' stems)"

text \<open>
  The body of the loop over \<open>METRIC_ALIASES.items()\<close>: the search, then the stores under
  the canonical key and, for another extension, under the key with that extension.
\<close>

definition store_metric :: "present_dict \<Rightarrow> images_dict \<Rightarrow> string list \<Rightarrow> error + images_dict" where
  "store_metric present imgs stems =
     (let (data_url, found_ext) = scan_stems present (None, None) stems in
      case stems of
        [] \<Rightarrow> Inl IndexError
      | s0 # _ \<Rightarrow>
          let imgs1 = AList.update (s0 @ ALLOWED_EXTS ! 0) (Single data_url) imgs in
          (case found_ext of
             None \<Rightarrow> Inr imgs1
           | Some e \<Rightarrow>
               if e \<noteq> [] \<and> e \<noteq> ALLOWED_EXTS ! 0
               then Inr (AList.update (s0 @ e) (Single data_url) imgs1)
               else Inr imgs1))"

fun resolve_metrics :: "present_dict \<Rightarrow> images_dict \<Rightarrow> (metric_key \<times> string list) list \<Rightarrow> error + images_dict" where
  "resolve_metrics present imgs [] = Inr imgs"
| "resolve_metrics present imgs ((k, stems) # rest) =
     (case store_metric present imgs stems of
        Inl e \<Rightarrow> Inl e
      | Inr imgs' \<Rightarrow> resolve_metrics present imgs' rest)"

text \<open>\<open>images.get(key) is None\<close>: the key is missing or holds \<open>None\<close>.\<close>

definition get_is_none :: "images_dict \<Rightarrow> string \<Rightarrow> bool" where
  "get_is_none imgs key =
     (case map_of imgs key of
        None \<Rightarrow> True
      | Some (Single None) \<Rightarrow> True
      | Some _ \<Rightarrow> False)"

text \<open>The fallback from the raw confusion matrix to the normalized one.\<close>

definition cm_fallback :: "images_dict \<Rightarrow> error + images_dict" where
  "cm_fallback imgs =
     (case alias_first CM of
        Inl e \<Rightarrow> Inl e
      | Inr cm_stem \<Rightarrow>
          (case alias_first CM_N of
             Inl e \<Rightarrow> Inl e
           | Inr cmn_stem \<Rightarrow>
               let cm_key = cm_stem @ ALLOWED_EXTS ! 0;
                   cmn_key = cmn_stem @ ALLOWED_EXTS ! 0
               in if get_is_none imgs cmn_key \<and> \<not> get_is_none imgs cm_key
                  then (case map_of imgs cm_key of
                          Some v \<Rightarrow> Inr (AList.update cmn_key v imgs)
                        | None \<Rightarrow> Inr imgs)
                  else Inr imgs))"

text \<open>
  The gallery loop over \<open>present.items()\<close>. Its state is the triple
  \<open>(val_labels, val_preds, all_imgs)\<close>.
\<close>

type_synonym galleries = "data_url list \<times> data_url list \<times> data_url list"

fun collect_galleries :: "present_dict \<Rightarrow> galleries \<Rightarrow> galleries" where
  "collect_galleries [] g = g"
| "collect_galleries ((name, file_path) # rest) (val_labels, val_preds, all_imgs) =
     (if \<not> list_ex (\<lambda>ext. endswith name ext) ALLOWED_EXTS
      then collect_galleries rest (val_labels, val_preds, all_imgs)
      else
        let lower' = lower name in
        case encode_image_to_data_url file_path of
          None \<Rightarrow> collect_galleries rest (val_labels, val_preds, all_imgs)
        | Some url \<Rightarrow>
            if startswith lower' ''val_batch'' \<and> contains lower' ''_labels''
            then collect_galleries rest (val_labels @ [url], val_preds, all_imgs)
            else if startswith lower' ''val_batch'' \<and> contains lower' ''_pred''
            then collect_galleries rest (val_labels, val_preds @ [url], all_imgs)
            else collect_galleries rest (val_labels, val_preds, all_imgs @ [url]))"

text \<open>\<open>d.setdefault(key, []).append(item)\<close>\<close>

definition setdefault_append :: "string \<Rightarrow> data_url \<Rightarrow> (string \<times> data_url list) list \<Rightarrow> (string \<times> data_url list) list" where
  "setdefault_append key item m =
     (case map_of m key of
        None \<Rightarrow> m @ [(key, [item])]
      | Some l \<Rightarrow> AList.update key (l @ [item]) m)"

text \<open>
  The regrouping loop: \<open>key = "batch_" + str(len(labels_map) + 1)\<close>. The dictionary
  has as many keys as the association list has pairs.
\<close>

fun regroup :: "(string \<times> data_url list) list \<Rightarrow> data_url list \<Rightarrow> (string \<times> data_url list) list" where
  "regroup m [] = m"
| "regroup m (item # items) =
     regroup (setdefault_append (''batch_'' @ str_nat (length m + 1)) item m) items"

definition store_gallery :: "string \<Rightarrow> data_url list \<Rightarrow> images_dict \<Rightarrow> images_dict" where
  "store_gallery tag urls imgs =
     (if urls \<noteq> [] then
        let m = regroup [] urls in
        AList.update tag (if m \<noteq> [] then Categorized m else Gallery urls) imgs
      else imgs)"

text \<open>
  The body of the loop over the configuration directories, for a directory whose
  listing is \<open>listing\<close>: the \<open>images\<close> dictionary of its \<open>ConfigImages\<close>.
\<close>

definition config_images :: "entry list \<Rightarrow> error + images_dict" where
  "config_images listing =
     (let present = present_of listing in
      case resolve_metrics present [] METRIC_ALIASES of
        Inl e \<Rightarrow> Inl e
      | Inr imgs \<Rightarrow>
          (case cm_fallback imgs of
             Inl e \<Rightarrow> Inl e
           | Inr imgs' \<Rightarrow>
               (case collect_galleries present ([], [], []) of
                  (val_labels, val_preds, all_imgs) \<Rightarrow>
                    Inr (store_gallery ''VAL_PRED'' val_preds
                           (store_gallery ''VAL_LABELS'' val_labels imgs')))))"

record ConfigImages =
  config_name :: string
  images :: images_dict

text \<open>
  \<open>collect_config_images\<close>: the configuration directories of \<open>root\<close>, sorted by
  lowercased name (Python's sort is stable, as \<open>sort_key\<close> is). Listing \<open>root\<close> or a
  configuration directory may fail; nothing catches that here.
\<close>

definition is_config_dir :: "entry \<Rightarrow> bool" where
  "is_config_dir p = (is_dir p \<and> endswith (ename p) ''_config'')"

fun collect_loop :: "entry list \<Rightarrow> ConfigImages list \<Rightarrow> error + ConfigImages list" where
  "collect_loop [] collected = Inr collected"
| "collect_loop (cfg_dir # rest) collected =
     (case cfg_dir of
        Dir n (Some listing) \<Rightarrow>
          (case config_images listing of
             Inl e \<Rightarrow> Inl e
           | Inr imgs \<Rightarrow>
               collect_loop rest (collected @ [\<lparr>config_name = n, images = imgs\<rparr>]))
      | _ \<Rightarrow> Inl OSError)"

definition collect_config_images :: "entry \<Rightarrow> error + ConfigImages list" where
  "collect_config_images root =
     (case root of
        Dir _ (Some children) \<Rightarrow>
          collect_loop (sort_key (\<lambda>p. lower (ename p)) (filter is_config_dir children)) []
      | _ \<Rightarrow> Inl OSError)"

section \<open>Discovering runs\<close>

text \<open>
  A run path is the list of names below the root: \<open>[]\<close> for the root itself and
  \<open>[n]\<close> for its child \<open>n\<close>. Two \<open>Path\<close> values are equal when these lists are.
\<close>

record RunGroup =
  run_name :: string
  run_path :: "string list"
  configs :: "ConfigImages list"

text \<open>\<open>is_run_dir\<close>: a failing listing is caught and gives \<open>False\<close>.\<close>

definition is_run_dir :: "entry \<Rightarrow> bool" where
  "is_run_dir p =
     (case p of
        Dir _ (Some children) \<Rightarrow> list_ex is_config_dir children
      | _ \<Rightarrow> False)"

text \<open>The loop over the candidates, with the set \<open>seen\<close> of paths and the list \<open>runs\<close>.\<close>

fun runs_loop :: "(string \<times> string list \<times> entry) list \<Rightarrow> string list set \<Rightarrow> RunGroup list \<Rightarrow> error + RunGroup list" where
  "runs_loop [] seen runs = Inr runs"
| "runs_loop ((name, path, node) # rest) seen runs =
     (if path \<in> seen then runs_loop rest seen runs
      else
        case collect_config_images node of
          Inl e \<Rightarrow> Inl e
        | Inr cfgs \<Rightarrow>
            runs_loop rest (insert path seen)
              (if cfgs \<noteq> [] then runs @ [\<lparr>run_name = name, run_path = path, configs = cfgs\<rparr>]
               else runs))"

text \<open>
  The candidates: the root when it is a run directory, then its children that are.
  \<open>root_str\<close> is \<open>str(root)\<close>, the name of a root whose last component is empty.
\<close>

definition candidates_of :: "string \<Rightarrow> entry \<Rightarrow> entry list \<Rightarrow> (string \<times> string list \<times> entry) list" where
  "candidates_of root_str root children =
     (if is_run_dir root
      then [(if ename root \<noteq> [] then ename root else root_str, [], root)]
      else [])
     @ map (\<lambda>child. (ename child, [ename child], child))
         (filter (\<lambda>child. is_dir child \<and> is_run_dir child) children)"

definition discover_runs :: "string \<Rightarrow> entry \<Rightarrow> error + RunGroup list" where
  "discover_runs root_str root =
     (case root of
        Dir _ (Some children) \<Rightarrow>
          (case runs_loop (candidates_of root_str root children) {} [] of
             Inl e \<Rightarrow> Inl e
           | Inr runs \<Rightarrow> Inr (sort_key (\<lambda>r. lower (run_name r)) runs))
      | _ \<Rightarrow> Inl OSError)"

section \<open>Notions used in the statements\<close>

text \<open>The expanded stem list of a metric key, \<open>METRIC_ALIASES[k]\<close>.\<close>

definition aliases :: "metric_key \<Rightarrow> string list" where
  "aliases k = (case map_of METRIC_ALIASES k of None \<Rightarrow> [] | Some stems \<Rightarrow> stems)"

text \<open>
  The candidates of a stem list in match priority: stem-major, extension-minor. A
  candidate is a hit when its lowercased file name is a key of the lookup.
\<close>

definition candidates :: "string list \<Rightarrow> (string \<times> string) list" where
  "candidates stems = concat (map (\<lambda>stem. map (\<lambda>ext. (stem, ext)) ALLOWED_EXTS) stems)"

definition is_hit :: "present_dict \<Rightarrow> string \<times> string \<Rightarrow> bool" where
  "is_hit present c = (map_of present (lower (fst c @ snd c)) \<noteq> None)"

definition first_hit :: "present_dict \<Rightarrow> string list \<Rightarrow> (string \<times> string) option" where
  "first_hit present stems = find (is_hit present) (candidates stems)"

text \<open>The outcome \<open>(data_url, found_ext)\<close> of the search of one metric key.\<close>

definition metric_scan :: "present_dict \<Rightarrow> metric_key \<Rightarrow> scan_state" where
  "metric_scan present k = scan_stems present (None, None) (aliases k)"

text \<open>The key \<open>METRIC_ALIASES[k][0] + ext\<close> and the canonical key of a metric key.\<close>

definition metric_file_key :: "metric_key \<Rightarrow> string \<Rightarrow> string" where
  "metric_file_key k ext = hd (aliases k) @ ext"

definition canonical_key :: "metric_key \<Rightarrow> string" where
  "canonical_key k = metric_file_key k (ALLOWED_EXTS ! 0)"

text \<open>
  What the body of the metric loop leaves under the key \<open>stems[0] + e\<close>, where \<open>old\<close> is
  what the key held before.
\<close>

definition stored :: "present_dict \<Rightarrow> string list \<Rightarrow> string \<Rightarrow> image_entry option \<Rightarrow> image_entry option" where
  "stored present stems e old =
     (case scan_stems present (None, None) stems of
        (d, fe) \<Rightarrow> if e = ''.png'' \<or> fe = Some e then Some (Single d) else old)"

text \<open>
  The value under the canonical key of a metric key at the end: the outcome of its own
  search, and for \<open>CM_N\<close> the outcome of \<open>CM\<close> when its own search set no data URL.
\<close>

definition final_value :: "present_dict \<Rightarrow> metric_key \<Rightarrow> data_url option" where
  "final_value present k =
     (if k = CM_N \<and> fst (metric_scan present CM_N) = None then fst (metric_scan present CM)
      else fst (metric_scan present k))"

text \<open>
  The gallery loop, in the words of its three rules: the entries of the lookup whose key
  ends with an accepted extension and whose file can be read, with their data URLs, and
  the rule each key falls under.
\<close>

definition is_image_name :: "string \<Rightarrow> bool" where
  "is_image_name name = list_ex (\<lambda>ext. endswith name ext) ALLOWED_EXTS"

definition is_labels :: "string \<Rightarrow> bool" where
  "is_labels name = (startswith (lower name) ''val_batch'' \<and> contains (lower name) ''_labels'')"

definition is_pred :: "string \<Rightarrow> bool" where
  "is_pred name = (startswith (lower name) ''val_batch'' \<and> contains (lower name) ''_pred'')"

definition readable_images :: "present_dict \<Rightarrow> (string \<times> data_url) list" where
  "readable_images present =
     List.map_filter
       (\<lambda>(name, f). if is_image_name name
                     then map_option (\<lambda>url. (name, url)) (encode_image_to_data_url f)
                     else None)
       present"

definition labeled :: "present_dict \<Rightarrow> data_url list" where
  "labeled present = map snd (filter (\<lambda>(name, url). is_labels name) (readable_images present))"

definition predicted :: "present_dict \<Rightarrow> data_url list" where
  "predicted present =
     map snd (filter (\<lambda>(name, url). \<not> is_labels name \<and> is_pred name) (readable_images present))"

definition generic :: "present_dict \<Rightarrow> data_url list" where
  "generic present =
     map snd (filter (\<lambda>(name, url). \<not> is_labels name \<and> \<not> is_pred name) (readable_images present))"

text \<open>The categorized gallery with one sequential key per image.\<close>

definition batches :: "data_url list \<Rightarrow> (string \<times> data_url list) list" where
  "batches urls = map (\<lambda>(i, url). (''batch_'' @ str_nat (Suc i), [url])) (enumerate 0 urls)"

section \<open>The alias table, evaluated\<close>

lemma lower_Nil [simp]: "lower [] = []"
  by (simp add: lower_def)

lemma lower_Cons [simp]: "lower (c # s) = lower_char c # lower s"
  by (simp add: lower_def)

lemma lower_char_simps [simp]:
  "lower_char (CHR ''a'') = CHR ''a''" "lower_char (CHR ''b'') = CHR ''b''"
  "lower_char (CHR ''c'') = CHR ''c''" "lower_char (CHR ''d'') = CHR ''d''"
  "lower_char (CHR ''e'') = CHR ''e''" "lower_char (CHR ''f'') = CHR ''f''"
  "lower_char (CHR ''g'') = CHR ''g''" "lower_char (CHR ''h'') = CHR ''h''"
  "lower_char (CHR ''i'') = CHR ''i''" "lower_char (CHR ''j'') = CHR ''j''"
  "lower_char (CHR ''k'') = CHR ''k''" "lower_char (CHR ''l'') = CHR ''l''"
  "lower_char (CHR ''m'') = CHR ''m''" "lower_char (CHR ''n'') = CHR ''n''"
  "lower_char (CHR ''o'') = CHR ''o''" "lower_char (CHR ''p'') = CHR ''p''"
  "lower_char (CHR ''q'') = CHR ''q''" "lower_char (CHR ''r'') = CHR ''r''"
  "lower_char (CHR ''s'') = CHR ''s''" "lower_char (CHR ''t'') = CHR ''t''"
  "lower_char (CHR ''u'') = CHR ''u''" "lower_char (CHR ''v'') = CHR ''v''"
  "lower_char (CHR ''w'') = CHR ''w''" "lower_char (CHR ''x'') = CHR ''x''"
  "lower_char (CHR ''y'') = CHR ''y''" "lower_char (CHR ''z'') = CHR ''z''"
  "lower_char (CHR ''A'') = CHR ''a''" "lower_char (CHR ''B'') = CHR ''b''"
  "lower_char (CHR ''C'') = CHR ''c''" "lower_char (CHR ''D'') = CHR ''d''"
  "lower_char (CHR ''E'') = CHR ''e''" "lower_char (CHR ''F'') = CHR ''f''"
  "lower_char (CHR ''G'') = CHR ''g''" "lower_char (CHR ''H'') = CHR ''h''"
  "lower_char (CHR ''I'') = CHR ''i''" "lower_char (CHR ''J'') = CHR ''j''"
  "lower_char (CHR ''K'') = CHR ''k''" "lower_char (CHR ''L'') = CHR ''l''"
  "lower_char (CHR ''M'') = CHR ''m''" "lower_char (CHR ''N'') = CHR ''n''"
  "lower_char (CHR ''O'') = CHR ''o''" "lower_char (CHR ''P'') = CHR ''p''"
  "lower_char (CHR ''Q'') = CHR ''q''" "lower_char (CHR ''R'') = CHR ''r''"
  "lower_char (CHR ''S'') = CHR ''s''" "lower_char (CHR ''T'') = CHR ''t''"
  "lower_char (CHR ''U'') = CHR ''u''" "lower_char (CHR ''V'') = CHR ''v''"
  "lower_char (CHR ''W'') = CHR ''w''" "lower_char (CHR ''X'') = CHR ''x''"
  "lower_char (CHR ''Y'') = CHR ''y''" "lower_char (CHR ''Z'') = CHR ''z''"
  "lower_char (CHR ''0'') = CHR ''0''" "lower_char (CHR ''1'') = CHR ''1''"
  "lower_char (CHR ''2'') = CHR ''2''" "lower_char (CHR ''3'') = CHR ''3''"
  "lower_char (CHR ''4'') = CHR ''4''" "lower_char (CHR ''5'') = CHR ''5''"
  "lower_char (CHR ''6'') = CHR ''6''" "lower_char (CHR ''7'') = CHR ''7''"
  "lower_char (CHR ''8'') = CHR ''8''" "lower_char (CHR ''9'') = CHR ''9''"
  "lower_char (CHR ''_'') = CHR ''_''" "lower_char (CHR ''-'') = CHR ''-''"
  "lower_char (CHR ''.'') = CHR ''.''"
  by (simp_all add: lower_char_def)

lemma lower_append: "lower (a @ b) = lower a @ lower b"
  by (simp add: lower_def)

lemma length_lower: "length (lower s) = length s"
  by (simp add: lower_def)

section \<open>Box expansion\<close>



lemma expand_inner_dedup:
  "expand_inner (seen, vs) xs =
     (seen \<union> lower ` set xs, vs @ dedup_ci (filter (\<lambda>x. lower x \<notin> seen) xs))"
proof (induction xs arbitrary: seen vs)
  case Nil
  then show ?case by simp
next
  case (Cons x xs)
  have eq: "filter (\<lambda>y. lower y \<noteq> lower x) (filter (\<lambda>y. lower y \<notin> seen) xs)
          = filter (\<lambda>y. lower y \<notin> insert (lower x) seen) xs"
    by (simp add: conj_commute)
  show ?case
  proof (cases "lower x \<in> seen")
    case True
    then show ?thesis using Cons.IH [of seen vs] by (auto simp: Let_def)
  next
    case False
    then show ?thesis using Cons.IH [of "insert (lower x) seen" "vs @ [x]"] eq
      by (simp add: Let_def)
  qed
qed

lemma expand_inner_append:
  "expand_inner st (xs @ ys) = expand_inner (expand_inner st xs) ys"
  by (induction st xs rule: expand_inner.induct) (simp_all add: Let_def)

lemma expand_outer_flat:
  "expand_outer st stems = expand_inner st (concat (map box_variants stems))"
  by (induction stems arbitrary: st) (simp_all add: expand_inner_append)

lemma expand_with_box_dedup:
  "expand_with_box stems = dedup_ci (concat (map box_variants stems))"
  by (simp add: expand_with_box_def expand_outer_flat expand_inner_dedup)



lemma dedup_ci_id: "distinct (map lower xs) \<Longrightarrow> dedup_ci xs = xs"
proof (induction xs)
  case Nil
  then show ?case by simp
next
  case (Cons x xs)
  from Cons.prems have "lower x \<notin> lower ` set xs" by simp
  then have "\<forall>y\<in>set xs. lower y \<noteq> lower x" by (metis image_eqI)
  then have "filter (\<lambda>y. lower y \<noteq> lower x) xs = xs"
    by (simp add: filter_id_conv)
  with Cons show ?case by simp
qed



lemma hd_expand: "stems \<noteq> [] \<Longrightarrow> hd (expand_with_box stems) = hd stems"
  by (cases stems) (simp_all add: expand_with_box_dedup box_variants_def)

lemma expand_with_box_distinct:
  "distinct (map lower (concat (map box_variants stems))) \<Longrightarrow>
   expand_with_box stems = concat (map box_variants stems)"
  by (simp add: expand_with_box_dedup dedup_ci_id)

section \<open>The expanded alias lists\<close>

lemma METRIC_ALIASES_lookup:
  "map_of METRIC_ALIASES k = map_option expand_with_box (map_of BASE_METRIC_STEMS k)"
  by (simp add: METRIC_ALIASES_def map_of_map)

lemma aliases_PR:
  "map_of METRIC_ALIASES PR = Some
     [''pr_curve'', ''boxpr_curve'', ''box_pr_curve'', ''box-pr_curve'',
      ''pr-curve'', ''boxpr-curve'', ''box_pr-curve'', ''box-pr-curve'',
      ''prcurve'', ''boxprcurve'', ''box_prcurve'', ''box-prcurve'',
      ''precision_recall_curve'', ''boxprecision_recall_curve'',
      ''box_precision_recall_curve'', ''box-precision_recall_curve'',
      ''precision-recall'', ''boxprecision-recall'', ''box_precision-recall'',
      ''box-precision-recall'', ''pr'', ''boxpr'', ''box_pr'', ''box-pr'']"
  by (simp add: METRIC_ALIASES_lookup BASE_METRIC_STEMS_def expand_with_box_dedup box_variants_def)

lemma aliases_P:
  "map_of METRIC_ALIASES P = Some
     [''p_curve'', ''boxp_curve'', ''box_p_curve'', ''box-p_curve'', ''p-curve'',
      ''boxp-curve'', ''box_p-curve'', ''box-p-curve'', ''pcurve'', ''boxpcurve'',
      ''box_pcurve'', ''box-pcurve'', ''precision_curve'', ''boxprecision_curve'',
      ''box_precision_curve'', ''box-precision_curve'', ''precision'',
      ''boxprecision'', ''box_precision'', ''box-precision'', ''boxboxpcurve'',
      ''box_boxpcurve'', ''box-boxpcurve'']"
  by (simp add: METRIC_ALIASES_lookup BASE_METRIC_STEMS_def expand_with_box_dedup box_variants_def)

lemma aliases_R:
  "map_of METRIC_ALIASES R = Some
     [''r_curve'', ''boxr_curve'', ''box_r_curve'', ''box-r_curve'', ''r-curve'',
      ''boxr-curve'', ''box_r-curve'', ''box-r-curve'', ''rcurve'', ''boxrcurve'',
      ''box_rcurve'', ''box-rcurve'', ''recall_curve'', ''boxrecall_curve'',
      ''box_recall_curve'', ''box-recall_curve'', ''recall'', ''boxrecall'',
      ''box_recall'', ''box-recall'']"
  by (simp add: METRIC_ALIASES_lookup BASE_METRIC_STEMS_def expand_with_box_dedup box_variants_def)

lemma aliases_F1:
  "map_of METRIC_ALIASES F1 = Some
     [''f1_curve'', ''boxf1_curve'', ''box_f1_curve'', ''box-f1_curve'',
      ''f1-curve'', ''boxf1-curve'', ''box_f1-curve'', ''box-f1-curve'',
      ''f1curve'', ''boxf1curve'', ''box_f1curve'', ''box-f1curve'', ''f1'',
      ''boxf1'', ''box_f1'', ''box-f1'']"
  by (simp add: METRIC_ALIASES_lookup BASE_METRIC_STEMS_def expand_with_box_dedup box_variants_def)

lemma aliases_CM:
  "map_of METRIC_ALIASES CM = Some
     [''confusion_matrix'', ''boxconfusion_matrix'', ''box_confusion_matrix'',
      ''box-confusion_matrix'', ''confusion-matrix'', ''boxconfusion-matrix'',
      ''box_confusion-matrix'', ''box-confusion-matrix'', ''cm'', ''boxcm'',
      ''box_cm'', ''box-cm'']"
  by (simp add: METRIC_ALIASES_lookup BASE_METRIC_STEMS_def expand_with_box_dedup box_variants_def)

lemma aliases_CM_N:
  "map_of METRIC_ALIASES CM_N = Some
     [''confusion_matrix_normalized'', ''boxconfusion_matrix_normalized'',
      ''box_confusion_matrix_normalized'', ''box-confusion_matrix_normalized'',
      ''confusion-matrix-normalized'', ''boxconfusion-matrix-normalized'',
      ''box_confusion-matrix-normalized'', ''box-confusion-matrix-normalized'',
      ''normalized_confusion_matrix'', ''boxnormalized_confusion_matrix'',
      ''box_normalized_confusion_matrix'', ''box-normalized_confusion_matrix'',
      ''confusion_matrix_norm'', ''boxconfusion_matrix_norm'',
      ''box_confusion_matrix_norm'', ''box-confusion_matrix_norm'',
      ''confusion-matrix-norm'', ''boxconfusion-matrix-norm'',
      ''box_confusion-matrix-norm'', ''box-confusion-matrix-norm'',
      ''confusionmatrix_normalized'', ''boxconfusionmatrix_normalized'',
      ''box_confusionmatrix_normalized'', ''box-confusionmatrix_normalized'',
      ''confusionmatrix-normalized'', ''boxconfusionmatrix-normalized'',
      ''box_confusionmatrix-normalized'', ''box-confusionmatrix-normalized'',
      ''confusion_matrix_normalised'', ''boxconfusion_matrix_normalised'',
      ''box_confusion_matrix_normalised'', ''box-confusion_matrix_normalised'',
      ''confusion-matrix-normalised'', ''boxconfusion-matrix-normalised'',
      ''box_confusion-matrix-normalised'', ''box-confusion-matrix-normalised'',
      ''cm_normalized'', ''boxcm_normalized'', ''box_cm_normalized'',
      ''box-cm_normalized'', ''cm_norm'', ''boxcm_norm'', ''box_cm_norm'',
      ''box-cm_norm'', ''cm-normalized'', ''boxcm-normalized'',
      ''box_cm-normalized'', ''box-cm-normalized'', ''cm-norm'', ''boxcm-norm'',
      ''box_cm-norm'', ''box-cm-norm'']"
proof -
  have "distinct (map lower (concat (map box_variants
          [''confusion_matrix_normalized'', ''confusion-matrix-normalized'',
             ''normalized_confusion_matrix'', ''confusion_matrix_norm'',
             ''confusion-matrix-norm'', ''confusionmatrix_normalized'',
             ''confusionmatrix-normalized'', ''confusion_matrix_normalised'',
             ''confusion-matrix-normalised'', ''cm_normalized'', ''cm_norm'',
             ''cm-normalized'', ''cm-norm''])))"
    by (simp add: box_variants_def)
  then show ?thesis
    by (simp add: METRIC_ALIASES_lookup BASE_METRIC_STEMS_def expand_with_box_distinct
        box_variants_def)
qed

lemma ALLOWED_EXTS_0 [simp]: "ALLOWED_EXTS ! 0 = ''.png''"
  by (simp add: ALLOWED_EXTS_def)

lemma alias_first_simps:
  "alias_first PR = Inr ''pr_curve''" "alias_first P = Inr ''p_curve''"
  "alias_first R = Inr ''r_curve''" "alias_first F1 = Inr ''f1_curve''"
  "alias_first CM = Inr ''confusion_matrix''"
  "alias_first CM_N = Inr ''confusion_matrix_normalized''"
  by (simp_all add: alias_first_def aliases_PR aliases_P aliases_R aliases_F1 aliases_CM
      aliases_CM_N)

section \<open>The lookup and the search of one metric\<close>

lemma aliases_simps:
  "aliases PR = the (map_of METRIC_ALIASES PR)"
  "aliases P = the (map_of METRIC_ALIASES P)"
  "aliases R = the (map_of METRIC_ALIASES R)"
  "aliases F1 = the (map_of METRIC_ALIASES F1)"
  "aliases CM = the (map_of METRIC_ALIASES CM)"
  "aliases CM_N = the (map_of METRIC_ALIASES CM_N)"
  by (simp_all add: aliases_def aliases_PR aliases_P aliases_R aliases_F1 aliases_CM aliases_CM_N)

lemma find_append:
  "find Q (xs @ ys) = (case find Q xs of None \<Rightarrow> find Q ys | Some x \<Rightarrow> Some x)"
  by (induction xs) auto

lemma find_SomeD: "find Q xs = Some x \<Longrightarrow> x \<in> set xs \<and> Q x"
  by (induction xs) (auto split: if_splits)

lemma map_of_present_loop:
  "map_of (present_loop acc fs) key =
     (case find (\<lambda>f. is_file f \<and> lower (ename f) = key) (rev fs) of
        Some f \<Rightarrow> Some f
      | None \<Rightarrow> map_of acc key)"
proof (induction fs arbitrary: acc)
  case Nil
  then show ?case by simp
next
  case (Cons f fs)
  then show ?case
    by (auto simp: find_append update_conv' split: option.splits)
qed

lemma map_of_present_of:
  "map_of (present_of listing) key = find (\<lambda>f. is_file f \<and> lower (ename f) = key) (rev listing)"
  by (simp add: present_of_def map_of_present_loop split: option.splits)

lemma map_of_present_of_SomeD:
  "map_of (present_of listing) key = Some f \<Longrightarrow>
   f \<in> set listing \<and> is_file f \<and> lower (ename f) = key"
  using find_SomeD [of "\<lambda>f. is_file f \<and> lower (ename f) = key" "rev listing" f]
  by (simp add: map_of_present_of)

lemma scan_exts_find:
  "scan_exts present stem st exts =
     (case find (\<lambda>ext. is_hit present (stem, ext)) exts of
        None \<Rightarrow> st
      | Some ext \<Rightarrow>
          (case map_of present (lower (stem @ ext)) of
             Some f \<Rightarrow> (encode_image_to_data_url f, Some ext)
           | None \<Rightarrow> st))"
  by (induction exts) (auto simp: is_hit_def split: option.splits)

lemma find_map_Pair:
  "find (is_hit present) (map (\<lambda>ext. (stem, ext)) exts) =
     map_option (\<lambda>ext. (stem, ext)) (find (\<lambda>ext. is_hit present (stem, ext)) exts)"
  by (induction exts) auto

lemma candidates_Cons:
  "candidates (s # stems) = map (\<lambda>ext. (s, ext)) ALLOWED_EXTS @ candidates stems"
  by (simp add: candidates_def)

lemma scan_stems_first_hit:
  assumes "first_hit present stems = Some (stem, ext)"
    and "map_of present (lower (stem @ ext)) = Some f"
    and "encode_image_to_data_url f = Some url"
    and "fst st = None"
  shows "scan_stems present st stems = (Some url, Some ext)"
  using assms
proof (induction stems arbitrary: st)
  case Nil
  then show ?case by (simp add: first_hit_def candidates_def)
next
  case (Cons s stems)
  show ?case
  proof (cases "find (\<lambda>ext. is_hit present (s, ext)) ALLOWED_EXTS")
    case None
    then have "first_hit present stems = Some (stem, ext)"
      using Cons.prems(1) by (simp add: first_hit_def candidates_Cons find_append find_map_Pair)
    moreover have "scan_exts present s st ALLOWED_EXTS = st"
      using None by (simp add: scan_exts_find)
    ultimately show ?thesis
      using Cons.IH [of st] Cons.prems by simp
  next
    case (Some e)
    then have "stem = s" "ext = e"
      using Cons.prems(1) by (simp_all add: first_hit_def candidates_Cons find_append find_map_Pair)
    then have "scan_exts present s st ALLOWED_EXTS = (Some url, Some ext)"
      using Some Cons.prems by (simp add: scan_exts_find)
    then show ?thesis by simp
  qed
qed

lemma scan_stems_no_hit:
  "first_hit present stems = None \<Longrightarrow> scan_stems present st stems = st"
proof (induction stems arbitrary: st)
  case Nil
  then show ?case by simp
next
  case (Cons s stems)
  then have n: "find (\<lambda>ext. is_hit present (s, ext)) ALLOWED_EXTS = None"
    and r: "first_hit present stems = None"
    by (auto simp: first_hit_def candidates_Cons find_append find_map_Pair split: option.splits)
  have "scan_exts present s st ALLOWED_EXTS = st"
    using n by (simp add: scan_exts_find)
  then show ?case using Cons.IH [OF r] by simp
qed

lemma scan_exts_cases:
  "scan_exts present stem st exts = st \<or>
   (\<exists>ext\<in>set exts. \<exists>f. map_of present (lower (stem @ ext)) = Some f
      \<and> scan_exts present stem st exts = (encode_image_to_data_url f, Some ext))"
  by (induction exts) (auto split: option.splits)

lemma scan_stems_cases:
  "scan_stems present st stems = st \<or>
   (\<exists>stem\<in>set stems. \<exists>ext\<in>set ALLOWED_EXTS. \<exists>f.
      map_of present (lower (stem @ ext)) = Some f
      \<and> scan_stems present st stems = (encode_image_to_data_url f, Some ext))"
proof (induction stems arbitrary: st)
  case Nil
  then show ?case by simp
next
  case (Cons s stems)
  consider (same) "scan_exts present s st ALLOWED_EXTS = st"
    | (hit) ext f where "ext \<in> set ALLOWED_EXTS" "map_of present (lower (s @ ext)) = Some f"
        "scan_exts present s st ALLOWED_EXTS = (encode_image_to_data_url f, Some ext)"
    using scan_exts_cases [of present s st ALLOWED_EXTS] by blast
  then show ?case
  proof cases
    case same
    then show ?thesis using Cons.IH [of st] by (auto simp: Let_def)
  next
    case hit
    show ?thesis
    proof (cases "encode_image_to_data_url f")
      case None
      then have step: "scan_stems present st (s # stems) = scan_stems present (None, Some ext) stems"
        using hit by (simp add: Let_def)
      have here: "(None, Some ext) = (encode_image_to_data_url f, Some ext)"
        using None by simp
      show ?thesis
        using Cons.IH [of "(None, Some ext)"] hit(1,2) step here
        by (metis list.set_intros(1,2))
    next
      case (Some u)
      then have "scan_stems present st (s # stems) = (encode_image_to_data_url f, Some ext)"
        using hit by (simp add: Let_def)
      then show ?thesis
        using hit(1,2) by (metis list.set_intros(1))
    qed
  qed
qed

section \<open>The metric loop\<close>

lemma takeWhile_until:
  "c \<notin> set s \<Longrightarrow> takeWhile (\<lambda>a. a \<noteq> c) (s @ c # x) = s"
  by (induction s) auto

lemma key_split:
  assumes "CHR ''.'' \<notin> set s" "CHR ''.'' \<notin> set s'" "s @ CHR ''.'' # x = s' @ CHR ''.'' # x'"
  shows "s = s' \<and> x = x'"
proof -
  have "takeWhile (\<lambda>c. c \<noteq> CHR ''.'') (s @ CHR ''.'' # x) = s"
    using assms(1) by (rule takeWhile_until)
  moreover have "takeWhile (\<lambda>c. c \<noteq> CHR ''.'') (s' @ CHR ''.'' # x') = s'"
    using assms(2) by (rule takeWhile_until)
  ultimately have "s = s'" using assms(3) by simp
  then show ?thesis using assms(3) by simp
qed

lemma ext_shape: "e \<in> set ALLOWED_EXTS \<Longrightarrow> \<exists>x. e = CHR ''.'' # x"
  by (auto simp: ALLOWED_EXTS_def)

lemma key_family_disjoint:
  assumes "CHR ''.'' \<notin> set s" "CHR ''.'' \<notin> set s'" "s \<noteq> s'"
    "e \<in> set ALLOWED_EXTS" "e' \<in> set ALLOWED_EXTS"
  shows "s @ e \<noteq> s' @ e'"
  using assms key_split ext_shape by metis

lemma scan_stems_ext:
  "scan_stems present (None, None) stems = (d, Some e) \<Longrightarrow> e \<in> set ALLOWED_EXTS"
  using scan_stems_cases [of present "(None, None)" stems] by auto

lemma store_metric_unfold:
  assumes "stems \<noteq> []" "scan_stems present (None, None) stems = (d, fe)"
  shows "store_metric present imgs stems =
     (case fe of
        None \<Rightarrow> Inr (AList.update (hd stems @ ''.png'') (Single d) imgs)
      | Some e \<Rightarrow>
          if e \<noteq> [] \<and> e \<noteq> ''.png''
          then Inr (AList.update (hd stems @ e) (Single d)
                 (AList.update (hd stems @ ''.png'') (Single d) imgs))
          else Inr (AList.update (hd stems @ ''.png'') (Single d) imgs))"
  using assms
  by (cases stems; cases fe) (simp_all add: store_metric_def Let_def del: scan_stems.simps)

lemma store_metric_map_of:
  assumes "stems \<noteq> []"
  shows "\<exists>imgs'. store_metric present imgs stems = Inr imgs'
     \<and> (\<forall>e\<in>set ALLOWED_EXTS.
          map_of imgs' (hd stems @ e) = stored present stems e (map_of imgs (hd stems @ e)))
     \<and> (\<forall>K. (\<forall>e\<in>set ALLOWED_EXTS. K \<noteq> hd stems @ e) \<longrightarrow> map_of imgs' K = map_of imgs K)
     \<and> (distinct (map fst imgs) \<longrightarrow> distinct (map fst imgs'))"
proof -
  obtain d fe where sc: "scan_stems present (None, None) stems = (d, fe)"
    by (cases "scan_stems present (None, None) stems")
  have png: "''.png'' \<in> set ALLOWED_EXTS" by (simp add: ALLOWED_EXTS_def)
  note sm = store_metric_unfold [OF assms sc, of imgs]
  show ?thesis
  proof (cases fe)
    case None
    then show ?thesis
      using sm sc png
      by (auto simp: stored_def update_conv' distinct_update)
  next
    case (Some e)
    then have e: "e \<in> set ALLOWED_EXTS" using sc scan_stems_ext by blast
    then have ne: "e \<noteq> []" by (auto simp: ALLOWED_EXTS_def)
    show ?thesis
      using sm sc png Some e ne
      by (auto simp: stored_def update_conv' distinct_update)
  qed
qed

lemma resolve_metrics_map_of:
  assumes "\<forall>p\<in>set tbl. snd p \<noteq> [] \<and> CHR ''.'' \<notin> set (hd (snd p))"
    and "distinct (map (\<lambda>p. hd (snd p)) tbl)"
  shows "\<exists>imgs'. resolve_metrics present imgs tbl = Inr imgs'
     \<and> (\<forall>p\<in>set tbl. \<forall>e\<in>set ALLOWED_EXTS.
          map_of imgs' (hd (snd p) @ e) = stored present (snd p) e (map_of imgs (hd (snd p) @ e)))
     \<and> (\<forall>K. (\<forall>p\<in>set tbl. \<forall>e\<in>set ALLOWED_EXTS. K \<noteq> hd (snd p) @ e)
            \<longrightarrow> map_of imgs' K = map_of imgs K)
     \<and> (distinct (map fst imgs) \<longrightarrow> distinct (map fst imgs'))"
  using assms
proof (induction tbl arbitrary: imgs)
  case Nil
  then show ?case by simp
next
  case (Cons p tbl)
  obtain k stems where p: "p = (k, stems)" by (cases p)
  have ne: "stems \<noteq> []" and dot: "CHR ''.'' \<notin> set (hd stems)"
    using Cons.prems(1) p by auto
  obtain imgs1 where s1: "store_metric present imgs stems = Inr imgs1"
    and s2: "\<And>e. e \<in> set ALLOWED_EXTS \<Longrightarrow>
          map_of imgs1 (hd stems @ e) = stored present stems e (map_of imgs (hd stems @ e))"
    and s3: "\<And>K. (\<forall>e\<in>set ALLOWED_EXTS. K \<noteq> hd stems @ e) \<Longrightarrow> map_of imgs1 K = map_of imgs K"
    and s4: "distinct (map fst imgs) \<Longrightarrow> distinct (map fst imgs1)"
    using store_metric_map_of [OF ne, of present imgs] by blast
  have tblp: "\<forall>p\<in>set tbl. snd p \<noteq> [] \<and> CHR ''.'' \<notin> set (hd (snd p))"
    and tbld: "distinct (map (\<lambda>p. hd (snd p)) tbl)"
    using Cons.prems by auto
  obtain imgs' where r1: "resolve_metrics present imgs1 tbl = Inr imgs'"
    and r2: "\<And>q e. q \<in> set tbl \<Longrightarrow> e \<in> set ALLOWED_EXTS \<Longrightarrow>
          map_of imgs' (hd (snd q) @ e) = stored present (snd q) e (map_of imgs1 (hd (snd q) @ e))"
    and r3: "\<And>K. (\<forall>q\<in>set tbl. \<forall>e\<in>set ALLOWED_EXTS. K \<noteq> hd (snd q) @ e)
          \<Longrightarrow> map_of imgs' K = map_of imgs1 K"
    and r4: "distinct (map fst imgs1) \<Longrightarrow> distinct (map fst imgs')"
    using Cons.IH [OF tblp tbld, of imgs1] by blast
  have apart: "hd stems @ e \<noteq> hd (snd q) @ e'"
    if "q \<in> set tbl" "e \<in> set ALLOWED_EXTS" "e' \<in> set ALLOWED_EXTS" for q e e'
  proof -
    have "hd stems \<noteq> hd (snd q)" using Cons.prems(2) p that(1) by auto
    moreover have "CHR ''.'' \<notin> set (hd (snd q))" using tblp that(1) by blast
    ultimately show ?thesis using key_family_disjoint dot that(2,3) by blast
  qed
  have a: "resolve_metrics present imgs (p # tbl) = Inr imgs'"
    using p s1 r1 by simp
  have b: "map_of imgs' (hd (snd q) @ e) = stored present (snd q) e (map_of imgs (hd (snd q) @ e))"
    if "q \<in> set (p # tbl)" "e \<in> set ALLOWED_EXTS" for q e
  proof (cases "q = p")
    case True
    have "map_of imgs' (hd stems @ e) = map_of imgs1 (hd stems @ e)"
      using r3 apart that(2) by blast
    then show ?thesis using True p s2 that(2) by simp
  next
    case False
    then have q: "q \<in> set tbl" using that(1) by simp
    have "map_of imgs1 (hd (snd q) @ e) = map_of imgs (hd (snd q) @ e)"
      using s3 apart [OF q _ that(2)] by metis
    then show ?thesis using r2 [OF q that(2)] by simp
  qed
  have c: "map_of imgs' K = map_of imgs K"
    if "\<forall>q\<in>set (p # tbl). \<forall>e\<in>set ALLOWED_EXTS. K \<noteq> hd (snd q) @ e" for K
  proof -
    have "map_of imgs' K = map_of imgs1 K" using r3 that by simp
    moreover have "map_of imgs1 K = map_of imgs K" using s3 that p by simp
    ultimately show ?thesis by simp
  qed
  have d: "distinct (map fst imgs) \<longrightarrow> distinct (map fst imgs')"
    using s4 r4 by blast
  show ?case using a b c d by blast
qed

lemma METRIC_ALIASES_eq:
  "METRIC_ALIASES = map (\<lambda>k. (k, aliases k)) [PR, P, R, F1, CM, CM_N]"
  by (simp add: METRIC_ALIASES_def BASE_METRIC_STEMS_def aliases_def)

lemma hd_aliases:
  "hd (aliases PR) = ''pr_curve''" "hd (aliases P) = ''p_curve''"
  "hd (aliases R) = ''r_curve''" "hd (aliases F1) = ''f1_curve''"
  "hd (aliases CM) = ''confusion_matrix''"
  "hd (aliases CM_N) = ''confusion_matrix_normalized''"
  by (simp_all add: aliases_def aliases_PR aliases_P aliases_R aliases_F1 aliases_CM aliases_CM_N)

lemma aliases_nonempty: "aliases k \<noteq> []"
  by (cases k)
    (simp_all add: aliases_def aliases_PR aliases_P aliases_R aliases_F1 aliases_CM aliases_CM_N)

lemma hd_aliases_no_dot: "CHR ''.'' \<notin> set (hd (aliases k))"
  by (cases k) (simp_all add: hd_aliases)

lemma hd_aliases_inj: "hd (aliases k) = hd (aliases k') \<Longrightarrow> k = k'"
  by (cases k; cases k') (simp_all add: hd_aliases)

lemma resolve_metrics_aliases:
  "\<exists>imgs'. resolve_metrics present [] METRIC_ALIASES = Inr imgs'
     \<and> (\<forall>k. \<forall>e\<in>set ALLOWED_EXTS.
          map_of imgs' (metric_file_key k e) = stored present (aliases k) e None)
     \<and> (\<forall>K. (\<forall>k. \<forall>e\<in>set ALLOWED_EXTS. K \<noteq> metric_file_key k e) \<longrightarrow> map_of imgs' K = None)
     \<and> distinct (map fst imgs')"
proof -
  have t1: "\<forall>p\<in>set METRIC_ALIASES. snd p \<noteq> [] \<and> CHR ''.'' \<notin> set (hd (snd p))"
    by (auto simp: METRIC_ALIASES_eq aliases_nonempty hd_aliases_no_dot)
  have t2: "distinct (map (\<lambda>p. hd (snd p)) METRIC_ALIASES)"
    by (simp add: METRIC_ALIASES_eq hd_aliases)
  have mem: "(k, aliases k) \<in> set METRIC_ALIASES" for k
    by (cases k) (simp_all add: METRIC_ALIASES_eq)
  obtain imgs' where r1: "resolve_metrics present [] METRIC_ALIASES = Inr imgs'"
    and r2: "\<And>q e. q \<in> set METRIC_ALIASES \<Longrightarrow> e \<in> set ALLOWED_EXTS \<Longrightarrow>
          map_of imgs' (hd (snd q) @ e) = stored present (snd q) e (map_of [] (hd (snd q) @ e))"
    and r3: "\<And>K. (\<forall>q\<in>set METRIC_ALIASES. \<forall>e\<in>set ALLOWED_EXTS. K \<noteq> hd (snd q) @ e)
          \<Longrightarrow> map_of imgs' K = map_of [] K"
    and r4: "distinct (map fst ([] :: images_dict)) \<longrightarrow> distinct (map fst imgs')"
    using resolve_metrics_map_of [OF t1 t2, of present "[]"] by blast
  have a: "map_of imgs' (metric_file_key k e) = stored present (aliases k) e None"
    if "e \<in> set ALLOWED_EXTS" for k e
    using r2 [OF mem that, of k] by (simp add: metric_file_key_def)
  have b: "map_of imgs' K = None"
    if "\<forall>k. \<forall>e\<in>set ALLOWED_EXTS. K \<noteq> metric_file_key k e" for K
  proof -
    have "\<forall>q\<in>set METRIC_ALIASES. \<forall>e\<in>set ALLOWED_EXTS. K \<noteq> hd (snd q) @ e"
      using that by (auto simp: METRIC_ALIASES_eq metric_file_key_def)
    then show ?thesis using r3 by simp
  qed
  show ?thesis using r1 a b r4 by auto
qed

section \<open>Claims about the alias table\<close>



text \<open>
  C10. For every metric key the first element of the expanded alias list is the first
  element of its base stem list. So the canonical key the resolver computes (first
  expanded stem, then the first extension) is the canonical key of the alias payload
  (first base stem, then the first extension), for all six metric keys.
\<close>

theorem C10_canonical_keys_agree:
  "(\<forall>k. \<exists>s rest rest'.
       map_of BASE_METRIC_STEMS k = Some (s # rest)
     \<and> map_of METRIC_ALIASES k = Some (s # rest')
     \<and> alias_first k = Inr s)
   \<and> (\<exists>m. alias_payload_canonical BASE_METRIC_STEMS = Inr m
          \<and> (\<forall>k. \<exists>s. alias_first k = Inr s
                  \<and> map_of m k = Some (s @ ALLOWED_EXTS ! 0)))"
proof -
  have a: "\<exists>s rest rest'.
       map_of BASE_METRIC_STEMS k = Some (s # rest)
     \<and> map_of METRIC_ALIASES k = Some (s # rest')
     \<and> alias_first k = Inr s" for k
    by (cases k)
      (simp_all add: alias_first_simps BASE_METRIC_STEMS_def aliases_PR aliases_P aliases_R
        aliases_F1 aliases_CM aliases_CM_N)
  have m: "alias_payload_canonical BASE_METRIC_STEMS =
     Inr [(PR, ''pr_curve.png''), (P, ''p_curve.png''), (R, ''r_curve.png''),
          (F1, ''f1_curve.png''), (CM, ''confusion_matrix.png''),
          (CM_N, ''confusion_matrix_normalized.png'')]"
    by (simp add: BASE_METRIC_STEMS_def)
  have b: "\<exists>s. alias_first k = Inr s
        \<and> map_of [(PR, ''pr_curve.png''), (P, ''p_curve.png''), (R, ''r_curve.png''),
          (F1, ''f1_curve.png''), (CM, ''confusion_matrix.png''),
          (CM_N, ''confusion_matrix_normalized.png'')] k = Some (s @ ALLOWED_EXTS ! 0)" for k
    by (cases k) (simp_all add: alias_first_simps)
  show ?thesis
    using a m b by blast
qed

end
